theory Spec2Isabelle
  imports Main
begin

section \<open>The calendar arithmetic of \<^verbatim>\<open>datetime\<close>\<close>

text \<open>
  \<^verbatim>\<open>timestamps.py\<close> builds four \<^verbatim>\<open>datetime\<close> objects, and in a loop replaces each by
  the same day one year later and appends its \<^verbatim>\<open>timestamp()\<close> to a list, until the list
  holds at least 80 values; then it prints the list.

  The script only calls the constructor, \<^verbatim>\<open>replace(year=...)\<close> and \<^verbatim>\<open>timestamp()\<close> of the
  standard library's \<^verbatim>\<open>datetime\<close>. Their definitions below follow the library's Python
  implementation (\<^verbatim>\<open>_pydatetime.py\<close>). Python's integers are unbounded: they are \<open>int\<close>
  here, and \<^verbatim>\<open>//\<close> and \<^verbatim>\<open>%\<close> by a positive number are \<open>div\<close> and \<open>mod\<close>.

  Every \<^verbatim>\<open>datetime\<close> of the script is built from a year, a month and a day only: its
  time of day is midnight, its \<^verbatim>\<open>tzinfo\<close> is \<^verbatim>\<open>None\<close> and its \<^verbatim>\<open>fold\<close> is 0, and
  \<^verbatim>\<open>replace(year=...)\<close> keeps them so. The record holds the three fields that vary.
\<close>

record datetime =
  year :: int
  month :: int
  day :: int

text \<open>
  The constructor raises \<^verbatim>\<open>ValueError\<close> in three places; the error value says which
  field was refused and carries the refused value.
\<close>

datatype error =
    ValueError_year int
  | ValueError_month int
  | ValueError_day int

definition MINYEAR :: int where
  "MINYEAR = 1"

definition MAXYEAR :: int where
  "MAXYEAR = 9999"

text \<open>Index 0 of both tables is a placeholder, as in the library.\<close>

definition DAYS_IN_MONTH :: "int list" where
  "DAYS_IN_MONTH = [-1, 31, 28, 31, 30, 31, 30, 31, 31, 30, 31, 30, 31]"

text \<open>
  \<^verbatim>\<open>
  _DAYS_BEFORE_MONTH = [-1]
  dbm = 0
  for dim in _DAYS_IN_MONTH[1:]:
      _DAYS_BEFORE_MONTH.append(dbm)
      dbm += dim
  \<close>
\<close>

definition DAYS_BEFORE_MONTH :: "int list" where
  "DAYS_BEFORE_MONTH =
     fst (fold (\<lambda>dim (tbl, dbm). (tbl @ [dbm], dbm + dim)) (tl DAYS_IN_MONTH) ([-1], 0))"

definition is_leap :: "int \<Rightarrow> bool" where
  "is_leap y \<longleftrightarrow> y mod 4 = 0 \<and> (y mod 100 \<noteq> 0 \<or> y mod 400 = 0)"

definition days_before_year :: "int \<Rightarrow> int" where
  "days_before_year yr = (let y = yr - 1 in y * 365 + y div 4 - y div 100 + y div 400)"

text \<open>
  The next two functions are only called with \<open>1 \<le> m \<le> 12\<close> (the library asserts it),
  where the table lookups are in range.
\<close>

definition days_in_month :: "int \<Rightarrow> int \<Rightarrow> int" where
  "days_in_month y m = (if m = 2 \<and> is_leap y then 29 else DAYS_IN_MONTH ! nat m)"

definition days_before_month :: "int \<Rightarrow> int \<Rightarrow> int" where
  "days_before_month y m = DAYS_BEFORE_MONTH ! nat m + (if m > 2 \<and> is_leap y then 1 else 0)"

definition ymd2ord :: "int \<Rightarrow> int \<Rightarrow> int \<Rightarrow> int" where
  "ymd2ord y m d = days_before_year y + days_before_month y m + d"

definition check_date_fields :: "int \<Rightarrow> int \<Rightarrow> int \<Rightarrow> error + (int \<times> int \<times> int)" where
  "check_date_fields y m d =
     (if \<not> (MINYEAR \<le> y \<and> y \<le> MAXYEAR) then Inl (ValueError_year y)
      else if \<not> (1 \<le> m \<and> m \<le> 12) then Inl (ValueError_month m)
      else let dim = days_in_month y m in
        if \<not> (1 \<le> d \<and> d \<le> dim) then Inl (ValueError_day d)
        else Inr (y, m, d))"

text \<open>\<^verbatim>\<open>datetime(y, m, d)\<close>: the constructor checks the fields, then stores them.\<close>

definition new_datetime :: "int \<Rightarrow> int \<Rightarrow> int \<Rightarrow> error + datetime" where
  "new_datetime y m d =
     (case check_date_fields y m d of
        Inl e \<Rightarrow> Inl e
      | Inr (y', m', d') \<Rightarrow> Inr \<lparr>year = y', month = m', day = d'\<rparr>)"

text \<open>
  \<^verbatim>\<open>self.replace(year=y)\<close>: every field that is not given is taken from \<open>self\<close>, and the
  result is built by the constructor, checks included.
\<close>

definition replace_year :: "datetime \<Rightarrow> int \<Rightarrow> error + datetime" where
  "replace_year self y = new_datetime y (month self) (day self)"

definition toordinal :: "datetime \<Rightarrow> int" where
  "toordinal self = ymd2ord (year self) (month self) (day self)"

text \<open>
  The local time zone is the one thing the script reads from its environment. It is a
  parameter here: the offset of local time from UTC, in seconds, at each instant given in
  seconds since the epoch. \<^verbatim>\<open>local(u)\<close> of the library breaks the instant \<open>u\<close> down with
  \<^verbatim>\<open>time.localtime\<close> and counts the seconds from the epoch to that wall-clock reading.
\<close>

type_synonym timezone = "int \<Rightarrow> int"

definition local_seconds :: "timezone \<Rightarrow> int \<Rightarrow> int" where
  "local_seconds tz u = u + tz u"

text \<open>
  \<^verbatim>\<open>(self - epoch) // timedelta(0, 1)\<close> at midnight: the days between the two ordinals, in
  seconds.
\<close>

definition seconds_since_epoch :: "datetime \<Rightarrow> int" where
  "seconds_since_epoch self =
     (toordinal self - toordinal \<lparr>year = 1970, month = 1, day = 1\<rparr>) * (24 * 3600)"

text \<open>\<^verbatim>\<open>_mktime\<close> with \<^verbatim>\<open>fold = 0\<close>: it solves \<open>t = local u\<close> for \<open>u\<close>.\<close>

definition mktime :: "timezone \<Rightarrow> datetime \<Rightarrow> int" where
  "mktime tz self =
     (let max_fold_seconds = 24 * 3600;
          t = seconds_since_epoch self;
          a = local_seconds tz t - t;
          u1 = t - a;
          t1 = local_seconds tz u1;
          b = (if t1 = t then local_seconds tz (u1 - max_fold_seconds) - (u1 - max_fold_seconds)
               else t1 - u1)
      in if t1 = t \<and> a = b then u1
         else let u2 = t - b;
                  t2 = local_seconds tz u2
              in if t2 = t then u2
                 else if t1 = t then u1
                 else max u1 u2)"

text \<open>
  \<^verbatim>\<open>timestamp()\<close> of a naive \<^verbatim>\<open>datetime\<close> is \<^verbatim>\<open>_mktime() + microsecond / 1e6\<close>. The
  microseconds are 0, so the float it returns is the integer of \<open>mktime\<close>; every value
  the script produces is below \<open>2 ^ 53\<close> in size, where a float holds an integer exactly.
\<close>

definition timestamp :: "timezone \<Rightarrow> datetime \<Rightarrow> int" where
  "timestamp tz self = mktime tz self"

text \<open>The order of \<^verbatim>\<open>datetime\<close> values: year, then month, then day.\<close>

definition date_less :: "datetime \<Rightarrow> datetime \<Rightarrow> bool" where
  "date_less d d' \<longleftrightarrow>
     year d < year d' \<or>
     (year d = year d' \<and> (month d < month d' \<or> (month d = month d' \<and> day d < day d')))"

text \<open>The values the constructor accepts.\<close>

definition valid_date :: "datetime \<Rightarrow> bool" where
  "valid_date d \<longleftrightarrow>
     MINYEAR \<le> year d \<and> year d \<le> MAXYEAR \<and> 1 \<le> month d \<and> month d \<le> 12 \<and>
     1 \<le> day d \<and> day d \<le> days_in_month (year d) (month d)"

section \<open>The script\<close>

text \<open>
  The state of the script is its two module-level variables. The conversion of a date
  to a number is a parameter \<open>conv\<close> of the model, so that the statements below hold for
  \<open>timestamp tz\<close> in every time zone \<open>tz\<close>. The conversion is a total function: the
  platform is taken to convert every date the script reaches, which are days of the years
  2024 to 2044.
\<close>

record 'a state =
  dates :: "datetime list"
  timestamps :: "'a list"

text \<open>A list comprehension whose element expression may raise: the first error ends it.\<close>

primrec map_result :: "('a \<Rightarrow> error + 'b) \<Rightarrow> 'a list \<Rightarrow> error + 'b list" where
  "map_result f [] = Inr []"
| "map_result f (x # xs) =
     (case f x of
        Inl e \<Rightarrow> Inl e
      | Inr y \<Rightarrow> (case map_result f xs of Inl e \<Rightarrow> Inl e | Inr ys \<Rightarrow> Inr (y # ys)))"

text \<open>Lines 3 to 10: the empty accumulator and the four seed dates.\<close>

definition seed_fields :: "(int \<times> int \<times> int) list" where
  "seed_fields = [(2023, 11, 25), (2024, 2, 25), (2024, 5, 24), (2024, 8, 29)]"

definition initial :: "error + 'a state" where
  "initial =
     (case map_result (\<lambda>(y, m, d). new_datetime y m d) seed_fields of
        Inl e \<Rightarrow> Inl e
      | Inr ds \<Rightarrow> Inr \<lparr>dates = ds, timestamps = []\<rparr>)"

text \<open>Lines 13 to 17: one iteration of the loop.\<close>

definition body :: "(datetime \<Rightarrow> 'a) \<Rightarrow> 'a state \<Rightarrow> error + 'a state" where
  "body conv s =
     (case map_result (\<lambda>d. replace_year d (year d + 1)) (dates s) of
        Inl e \<Rightarrow> Inl e
      | Inr ds \<Rightarrow> Inr \<lparr>dates = ds, timestamps = timestamps s @ map conv ds\<rparr>)"

text \<open>
  Line 12: the loop. It need not end for every state (with no dates the accumulator
  never grows), so not returning is the value \<open>None\<close>; an error ends it at once.
\<close>

partial_function (option) while_loop :: "(datetime \<Rightarrow> 'a) \<Rightarrow> 'a state \<Rightarrow> (error + 'a state) option"
  where
  "while_loop conv s =
     (if length (timestamps s) < 80 then
        (case body conv s of
           Inl e \<Rightarrow> Some (Inl e)
         | Inr s' \<Rightarrow> while_loop conv s')
      else Some (Inr s))"

text \<open>
  The whole script. Its result is what it prints: the accumulator, when line 19 is
  reached; an error is an uncaught exception, and nothing is printed.
\<close>

definition script :: "(datetime \<Rightarrow> 'a) \<Rightarrow> (error + 'a list) option" where
  "script conv =
     (case initial of
        Inl e \<Rightarrow> Some (Inl e)
      | Inr s0 \<Rightarrow>
          (case while_loop conv s0 of
             None \<Rightarrow> None
           | Some (Inl e) \<Rightarrow> Some (Inl e)
           | Some (Inr s) \<Rightarrow> Some (Inr (timestamps s))))"

section \<open>Notions used to state the properties\<close>

text \<open>
  The definitions of this section are not in the script: the properties are stated with
  them. \<open>seeds\<close> are the four dates of lines 5 to 10 as values, and \<open>add_years k d\<close> is
  the date \<open>d\<close> with \<open>k\<close> added to its year and nothing checked.
\<close>

definition seeds :: "datetime list" where
  "seeds = [\<lparr>year = 2023, month = 11, day = 25\<rparr>, \<lparr>year = 2024, month = 2, day = 25\<rparr>,
            \<lparr>year = 2024, month = 5, day = 24\<rparr>, \<lparr>year = 2024, month = 8, day = 29\<rparr>]"

definition add_years :: "int \<Rightarrow> datetime \<Rightarrow> datetime" where
  "add_years k d = d\<lparr>year := year d + k\<rparr>"

text \<open>
  \<open>iterate conv k s\<close> runs the loop body \<open>k\<close> times from the state \<open>s\<close>, whatever the
  guard of the loop says; an error of the body ends it. It counts the iterations, which
  the script does not.
\<close>

primrec iterate :: "(datetime \<Rightarrow> 'a) \<Rightarrow> nat \<Rightarrow> 'a state \<Rightarrow> error + 'a state" where
  "iterate conv 0 s = Inr s"
| "iterate conv (Suc k) s = (case iterate conv k s of Inl e \<Rightarrow> Inl e | Inr s' \<Rightarrow> body conv s')"

text \<open>
  The date expected at index \<open>j\<close> of the output, counted from 0: block \<open>j div 4\<close> holds
  the seeds \<open>j div 4 + 1\<close> years later, in the order of the seeds.
\<close>

definition generated_date :: "nat \<Rightarrow> datetime" where
  "generated_date j = add_years (int (j div 4) + 1) (seeds ! (j mod 4))"

definition generated_dates :: "datetime list" where
  "generated_dates = map generated_date [0..<80]"

text \<open>The state expected after \<open>k\<close> iterations.\<close>

definition state_after :: "(datetime \<Rightarrow> 'a) \<Rightarrow> nat \<Rightarrow> 'a state" where
  "state_after conv k =
     \<lparr>dates = map (add_years (int k)) seeds, timestamps = map (conv \<circ> generated_date) [0..<4 * k]\<rparr>"

text \<open>
  A conversion is strictly monotone when a later calendar date has a larger timestamp.
  Only dates that exist are compared: the record type also holds triples that are no
  date, and the constructor never returns them.
\<close>

definition conv_strictly_monotone :: "(datetime \<Rightarrow> 'a::order) \<Rightarrow> bool" where
  "conv_strictly_monotone conv \<longleftrightarrow>
     (\<forall>d d'. valid_date d \<and> valid_date d' \<and> date_less d d' \<longrightarrow> conv d < conv d')"

text \<open>A time zone whose offset from UTC never changes, and UTC itself.\<close>

definition fixed_offset :: "int \<Rightarrow> timezone" where
  "fixed_offset off = (\<lambda>u. off)"

definition utc :: timezone where
  "utc = fixed_offset 0"

section \<open>Calendar lemmas\<close>

text \<open>
  How the number of days before a year and before a month grows, and from it that the
  ordinal of a date grows strictly with the date. The last lemma says what
  \<^verbatim>\<open>replace(year=d.year + 1)\<close> returns on every date that exists.
\<close>

lemma DAYS_BEFORE_MONTH_eq:
  "DAYS_BEFORE_MONTH = [-1, 0, 31, 59, 90, 120, 151, 181, 212, 243, 273, 304, 334]"
  by (simp add: DAYS_BEFORE_MONTH_def DAYS_IN_MONTH_def)

lemma div_step:
  fixes y n :: int
  assumes n: "0 < n"
  shows "y div n - (y - 1) div n = (if y mod n = 0 then 1 else 0)"
proof (cases "y mod n = 0")
  case True
  have "y - 1 = n * (y div n - 1) + (n - 1)"
    using True mult_div_mod_eq[of n y] by (simp add: algebra_simps)
  moreover have "0 \<le> n - 1" "n - 1 < n" using n by simp_all
  ultimately have "(y - 1) div n = y div n - 1"
    by (rule int_div_pos_eq)
  with True show ?thesis by simp
next
  case False
  have "y - 1 = n * (y div n) + (y mod n - 1)"
    using mult_div_mod_eq[of n y] by simp
  moreover have "0 \<le> y mod n" "y mod n < n"
    using n by simp_all
  then have "0 \<le> y mod n - 1" "y mod n - 1 < n"
    using False by linarith+
  ultimately have "(y - 1) div n = y div n"
    by (rule int_div_pos_eq)
  with False show ?thesis by simp
qed

lemma mod_100_4: "(y::int) mod 100 = 0 \<Longrightarrow> y mod 4 = 0"
  using mod_mod_cancel[of 4 100 y] by simp

lemma mod_400_100: "(y::int) mod 400 = 0 \<Longrightarrow> y mod 100 = 0"
  using mod_mod_cancel[of 100 400 y] by simp

lemma leap_step_arith:
  fixes a b c a' b' c' y :: int
  assumes "a' - a = (if p4 then 1 else 0)"
    and "b' - b = (if p100 then 1 else 0)"
    and "c' - c = (if p400 then 1 else 0)"
    and "p100 \<Longrightarrow> p4" and "p400 \<Longrightarrow> p100"
  shows "y * 365 + a' - b' + c' =
         (y - 1) * 365 + a - b + c + (if p4 \<and> (\<not> p100 \<or> p400) then 366 else 365)"
  using assms by (auto split: if_splits)

lemma days_before_year_succ:
  "days_before_year (y + 1) = days_before_year y + (if is_leap y then 366 else 365)"
proof -
  have l: "days_before_year (y + 1) = y * 365 + y div 4 - y div 100 + y div 400"
    by (simp add: days_before_year_def Let_def)
  have r: "days_before_year y =
        (y - 1) * 365 + (y - 1) div 4 - (y - 1) div 100 + (y - 1) div 400"
    by (simp add: days_before_year_def Let_def)
  show ?thesis
    unfolding l r is_leap_def
    by (rule leap_step_arith[OF div_step div_step div_step mod_100_4 mod_400_100]) simp_all
qed

lemma days_before_year_mono:
  assumes "y \<le> y'"
  shows "days_before_year y \<le> days_before_year y'"
  using assms
proof (induction y' rule: int_ge_induct)
  case base
  show ?case by simp
next
  case (step i)
  then show ?case
    by (simp add: days_before_year_succ)
qed

lemma is_leap_succ:
  assumes "is_leap y"
  shows "\<not> is_leap (y + 1)"
proof -
  from assms have "y mod 4 = 0" by (simp add: is_leap_def)
  then have "(y + 1) mod 4 \<noteq> 0" by presburger
  then show ?thesis by (simp add: is_leap_def)
qed

lemma month_cases:
  "1 \<le> m \<Longrightarrow> m \<le> 12 \<Longrightarrow>
   m = 1 \<or> m = 2 \<or> m = 3 \<or> m = 4 \<or> m = 5 \<or> m = 6 \<or> m = 7 \<or> m = 8 \<or> m = 9 \<or> m = 10 \<or>
   m = 11 \<or> m = (12::int)"
  by arith

lemma days_in_month_bounds:
  "1 \<le> m \<Longrightarrow> m \<le> 12 \<Longrightarrow> 28 \<le> days_in_month y m \<and> days_in_month y m \<le> 31"
  using month_cases[of m] by (auto simp: days_in_month_def DAYS_IN_MONTH_def)

lemma days_in_month_not_feb: "1 \<le> m \<Longrightarrow> m \<le> 12 \<Longrightarrow> m \<noteq> 2 \<Longrightarrow> days_in_month y m = days_in_month y' m"
  by (simp add: days_in_month_def)

lemma days_in_feb: "days_in_month y 2 = (if is_leap y then 29 else 28)"
  by (simp add: days_in_month_def DAYS_IN_MONTH_def)

lemma days_before_month_succ:
  assumes "1 \<le> m" and "m < 12"
  shows "days_before_month y (m + 1) = days_before_month y m + days_in_month y m"
proof -
  have "m = 1 \<or> m = 2 \<or> m = 3 \<or> m = 4 \<or> m = 5 \<or> m = 6 \<or> m = 7 \<or> m = 8 \<or> m = 9 \<or> m = 10 \<or>
      m = 11"
    using assms by arith
  then show ?thesis
    by (auto simp: days_before_month_def days_in_month_def DAYS_BEFORE_MONTH_eq DAYS_IN_MONTH_def)
qed

lemma days_before_month_mono:
  assumes "1 \<le> m" and "m < m'" and "m' \<le> 12"
  shows "days_before_month y m + days_in_month y m \<le> days_before_month y m'"
proof -
  have "m + 1 \<le> m'"
    using assms(2) by simp
  then show ?thesis
    using assms(1,3)
  proof (induction m' rule: int_ge_induct)
    case base
    then show ?case
      by (simp add: days_before_month_succ)
  next
    case (step i)
    have "0 \<le> days_in_month y i"
      using days_in_month_bounds[of i y] step by simp
    with step show ?case
      by (simp add: days_before_month_succ)
  qed
qed

lemma day_of_year_bounds:
  assumes "valid_date d"
  shows "1 \<le> days_before_month (year d) (month d) + day d"
    and "days_before_month (year d) (month d) + day d \<le> (if is_leap (year d) then 366 else 365)"
proof -
  have m: "1 \<le> month d" "month d \<le> 12" and dd: "1 \<le> day d"
    "day d \<le> days_in_month (year d) (month d)"
    using assms by (simp_all add: valid_date_def)
  have "days_before_month (year d) 1 \<le> days_before_month (year d) (month d)"
  proof (cases "month d = 1")
    case True
    then show ?thesis by simp
  next
    case False
    have "0 \<le> days_in_month (year d) 1"
      by (simp add: days_in_month_def DAYS_IN_MONTH_def)
    with days_before_month_mono[of 1 "month d" "year d"] False m show ?thesis
      by simp
  qed
  then have "0 \<le> days_before_month (year d) (month d)"
    by (simp add: days_before_month_def DAYS_BEFORE_MONTH_eq)
  with dd show "1 \<le> days_before_month (year d) (month d) + day d"
    by simp
  have "days_before_month (year d) (month d) + days_in_month (year d) (month d)
      \<le> days_before_month (year d) 12 + days_in_month (year d) 12"
  proof (cases "month d = 12")
    case True
    then show ?thesis by simp
  next
    case False
    have "0 \<le> days_in_month (year d) 12"
      by (simp add: days_in_month_def DAYS_IN_MONTH_def)
    with days_before_month_mono[of "month d" 12 "year d"] False m show ?thesis
      by simp
  qed
  also have "\<dots> = (if is_leap (year d) then 366 else 365)"
    by (simp add: days_before_month_def days_in_month_def DAYS_BEFORE_MONTH_eq DAYS_IN_MONTH_def)
  finally show "days_before_month (year d) (month d) + day d
      \<le> (if is_leap (year d) then 366 else 365)"
    using dd by simp
qed

lemma toordinal_strict_mono:
  assumes "valid_date d" and "valid_date d'" and "date_less d d'"
  shows "toordinal d < toordinal d'"
proof -
  consider (y) "year d < year d'"
    | (m) "year d = year d'" "month d < month d'"
    | (d) "year d = year d'" "month d = month d'" "day d < day d'"
    using assms(3) by (auto simp: date_less_def)
  then show ?thesis
  proof cases
    case y
    have "toordinal d \<le> days_before_year (year d) + (if is_leap (year d) then 366 else 365)"
      using day_of_year_bounds(2)[OF assms(1)] by (simp add: toordinal_def ymd2ord_def)
    also have "\<dots> = days_before_year (year d + 1)"
      by (simp add: days_before_year_succ)
    also have "\<dots> \<le> days_before_year (year d')"
      using y by (intro days_before_year_mono) simp
    also have "\<dots> < toordinal d'"
      using day_of_year_bounds(1)[OF assms(2)] by (simp add: toordinal_def ymd2ord_def)
    finally show ?thesis .
  next
    case m
    have v: "1 \<le> month d" "month d' \<le> 12" "day d \<le> days_in_month (year d) (month d)"
      "1 \<le> day d'"
      using assms(1,2) by (simp_all add: valid_date_def)
    from days_before_month_mono[OF v(1) m(2) v(2), of "year d"] v(3,4) m(1)
    show ?thesis
      by (simp add: toordinal_def ymd2ord_def)
  next
    case d
    then show ?thesis
      by (simp add: toordinal_def ymd2ord_def)
  qed
qed

lemma new_datetime_valid:
  "new_datetime y m d = Inr x \<longleftrightarrow> x = \<lparr>year = y, month = m, day = d\<rparr> \<and> valid_date x"
  by (auto simp: new_datetime_def check_date_fields_def valid_date_def Let_def)

lemma leap_day_is_in_leap_year:
  assumes "valid_date d" and "month d = 2" and "day d = 29"
  shows "is_leap (year d) \<and> \<not> is_leap (year d + 1)"
proof -
  have "day d \<le> days_in_month (year d) 2"
    using assms(1,2) by (simp add: valid_date_def)
  with assms(3) have "is_leap (year d)"
    by (simp add: days_in_feb split: if_splits)
  then show ?thesis
    using is_leap_succ by blast
qed

lemma replace_year_succ:
  assumes "valid_date d"
  shows "replace_year d (year d + 1) =
     (if MAXYEAR < year d + 1 then Inl (ValueError_year (year d + 1))
      else if month d = 2 \<and> day d = 29 then Inl (ValueError_day 29)
      else Inr (add_years 1 d))"
proof -
  have v: "1 \<le> year d" "year d \<le> 9999" "1 \<le> month d" "month d \<le> 12" "1 \<le> day d"
    "day d \<le> days_in_month (year d) (month d)"
    using assms by (simp_all add: valid_date_def MINYEAR_def MAXYEAR_def)
  show ?thesis
  proof (cases "month d = 2")
    case True
    show ?thesis
    proof (cases "day d = 29")
      case d29: True
      with v True have "is_leap (year d)" by (simp add: days_in_feb split: if_splits)
      then have "\<not> is_leap (year d + 1)" by (rule is_leap_succ)
      with True d29 v show ?thesis
        by (simp add: replace_year_def new_datetime_def check_date_fields_def MINYEAR_def
            MAXYEAR_def days_in_feb)
    next
      case False
      with v True have "day d \<le> 28" by (simp add: days_in_feb split: if_splits)
      with True False v show ?thesis
        by (simp add: replace_year_def new_datetime_def check_date_fields_def MINYEAR_def
            MAXYEAR_def days_in_feb add_years_def)
    qed
  next
    case False
    with v have "days_in_month (year d + 1) (month d) = days_in_month (year d) (month d)"
      by (intro days_in_month_not_feb)
    with False v show ?thesis
      by (simp add: replace_year_def new_datetime_def check_date_fields_def MINYEAR_def
          MAXYEAR_def add_years_def)
  qed
qed

section \<open>Time zones with a fixed offset\<close>

text \<open>
  Where the offset never changes, \<open>mktime\<close> finds its solution at the first try: the
  timestamp is the count of seconds from the epoch to the date, less the offset.
\<close>

lemma mktime_fixed_offset: "mktime (fixed_offset off) d = seconds_since_epoch d - off"
  by (simp add: mktime_def local_seconds_def fixed_offset_def Let_def)

lemma timestamp_fixed_offset: "timestamp (fixed_offset off) d = seconds_since_epoch d - off"
  by (simp add: timestamp_def mktime_fixed_offset)

lemma fixed_offset_strictly_monotone: "conv_strictly_monotone (timestamp (fixed_offset off))"
  unfolding conv_strictly_monotone_def
proof (intro allI impI)
  fix d d'
  assume "valid_date d \<and> valid_date d' \<and> date_less d d'"
  then have "toordinal d < toordinal d'"
    using toordinal_strict_mono by blast
  then show "timestamp (fixed_offset off) d < timestamp (fixed_offset off) d'"
    by (simp add: timestamp_fixed_offset seconds_since_epoch_def)
qed

lemma seconds_since_epoch_values:
  "seconds_since_epoch \<lparr>year = 2024, month = 11, day = 25\<rparr> = 1732492800"
  "seconds_since_epoch \<lparr>year = 2025, month = 2, day = 25\<rparr> = 1740441600"
  "seconds_since_epoch \<lparr>year = 2025, month = 5, day = 24\<rparr> = 1748044800"
  "seconds_since_epoch \<lparr>year = 2025, month = 8, day = 29\<rparr> = 1756425600"
  "seconds_since_epoch \<lparr>year = 2044, month = 8, day = 29\<rparr> = 2356041600"
  by (simp_all add: seconds_since_epoch_def toordinal_def ymd2ord_def days_before_year_def
      days_before_month_def DAYS_BEFORE_MONTH_eq is_leap_def)

section \<open>The loop on the seed dates\<close>

text \<open>
  From the four seed dates every iteration succeeds while the years stay in range, and
  the state after \<open>k\<close> iterations is \<open>state_after conv k\<close>. The loop is then unfolded
  from the state after 20 iterations back to the first.
\<close>

lemma initial_eq: "initial = Inr \<lparr>dates = seeds, timestamps = []\<rparr>"
  by (simp add: initial_def seed_fields_def new_datetime_def check_date_fields_def
      MINYEAR_def MAXYEAR_def days_in_month_def DAYS_IN_MONTH_def is_leap_def seeds_def)

lemma length_seeds: "length seeds = 4"
  by (simp add: seeds_def)

lemma map_result_Inr: "(\<And>x. x \<in> set xs \<Longrightarrow> f x = Inr (g x)) \<Longrightarrow> map_result f xs = Inr (map g xs)"
  by (induction xs) simp_all

lemma map_result_map: "map_result f (map g xs) = map_result (\<lambda>x. f (g x)) xs"
  by (induction xs) (simp_all split: sum.splits)

lemma map_result_length: "map_result f xs = Inr ys \<Longrightarrow> length ys = length xs"
  by (induction xs arbitrary: ys) (auto split: sum.splits)

lemma seeds_valid:
  assumes "d \<in> set seeds" and "0 \<le> k" and "k \<le> 7975"
  shows "valid_date (add_years k d)"
proof -
  have "28 \<le> days_in_month y 2" "days_in_month y 5 = 31" "days_in_month y 8 = 31"
    "days_in_month y 11 = 30" for y
    by (simp_all add: days_in_month_def DAYS_IN_MONTH_def)
  then show ?thesis
    using assms
    by (auto simp: seeds_def add_years_def valid_date_def MINYEAR_def MAXYEAR_def
        intro: order_trans[of _ 28])
qed

lemma seeds_not_leap_day: "d \<in> set seeds \<Longrightarrow> day (add_years k d) = 29 \<Longrightarrow> month (add_years k d) \<noteq> 2"
  by (auto simp: seeds_def add_years_def)

lemma seeds_year: "d \<in> set seeds \<Longrightarrow> year d \<le> 2024"
  by (auto simp: seeds_def)

lemma add_years_add: "add_years 1 (add_years k d) = add_years (k + 1) d"
  by (simp add: add_years_def)

lemma replace_year_seeds:
  assumes "d \<in> set seeds" and "0 \<le> k" and "k < 7975"
  shows "replace_year (add_years k d) (year (add_years k d) + 1) = Inr (add_years (k + 1) d)"
proof -
  have "valid_date (add_years k d)"
    using assms by (intro seeds_valid) simp_all
  moreover have "\<not> MAXYEAR < year (add_years k d) + 1"
    using seeds_year[OF assms(1)] assms(3) by (simp add: add_years_def MAXYEAR_def)
  moreover have "\<not> (month (add_years k d) = 2 \<and> day (add_years k d) = 29)"
    using seeds_not_leap_day[OF assms(1)] by blast
  ultimately show ?thesis
    by (simp add: replace_year_succ add_years_add)
qed

lemma upt_four: "[0..<4 * Suc k] = [0..<4 * k] @ [4 * k, 4 * k + 1, 4 * k + 2, 4 * k + 3]"
proof -
  have "[0..<4 * k + 4] = [0..<4 * k] @ [4 * k..<4 * k + 4]"
    by (rule upt_add_eq_append) simp
  moreover have "[4 * k..<4 * k + 4] = [4 * k, 4 * k + 1, 4 * k + 2, 4 * k + 3]"
    by (simp add: upt_rec)
  moreover have "4 * Suc k = 4 * k + 4"
    by simp
  ultimately show ?thesis by (simp only:)
qed

lemma generated_date_at:
  "i < 4 \<Longrightarrow> generated_date (4 * k + i) = add_years (int k + 1) (seeds ! i)"
  by (simp add: generated_date_def)

lemma generated_date_block:
  "map generated_date [4 * k, 4 * k + 1, 4 * k + 2, 4 * k + 3] = map (add_years (int k + 1)) seeds"
  using generated_date_at[of 0 k] generated_date_at[of 1 k] generated_date_at[of 2 k]
    generated_date_at[of 3 k]
  by (simp add: seeds_def)

lemma state_after_Suc:
  "state_after conv (Suc k) =
     \<lparr>dates = map (add_years (int k + 1)) seeds,
      timestamps = timestamps (state_after conv k) @ map conv (map (add_years (int k + 1)) seeds)\<rparr>"
proof -
  have "map (conv \<circ> generated_date) [0..<4 * Suc k] =
      map (conv \<circ> generated_date) [0..<4 * k] @ map conv (map (add_years (int k + 1)) seeds)"
    by (simp only: upt_four map_append map_map[symmetric] generated_date_block)
  then show ?thesis
    unfolding state_after_def by (simp add: add.commute)
qed

lemma body_state_after:
  assumes "k < 7975"
  shows "body conv (state_after conv k) = Inr (state_after conv (Suc k))"
proof -
  have "map_result (\<lambda>d. replace_year d (year d + 1)) (map (add_years (int k)) seeds)
      = Inr (map (add_years (int k + 1)) seeds)"
    unfolding map_result_map
    using assms by (intro map_result_Inr) (simp add: replace_year_seeds)
  moreover have "dates (state_after conv k) = map (add_years (int k)) seeds"
    by (simp add: state_after_def)
  ultimately show ?thesis
    unfolding body_def state_after_Suc by simp
qed

lemma iterate_state_after:
  "k \<le> 7975 \<Longrightarrow> iterate conv k (state_after conv 0) = Inr (state_after conv k)"
  by (induction k) (simp_all add: body_state_after)

lemma length_state_after: "length (timestamps (state_after conv k)) = 4 * k"
  by (simp add: state_after_def)

lemma dates_state_after: "dates (state_after conv k) = map (add_years (int k)) seeds"
  by (simp add: state_after_def)

lemma while_loop_state_after:
  "k \<le> 20 \<Longrightarrow> while_loop conv (state_after conv (20 - k)) = Some (Inr (state_after conv 20))"
proof (induction k)
  case 0
  show ?case
    by (subst while_loop.simps) (simp add: length_state_after)
next
  case (Suc k)
  then have "Suc (20 - Suc k) = 20 - k" by simp
  with Suc show ?case
    by (subst while_loop.simps) (simp add: length_state_after body_state_after)
qed

lemma while_loop_error:
  assumes "length (timestamps s) < 80" and "body conv s = Inl e"
  shows "while_loop conv s = Some (Inl e)"
  using assms by (subst while_loop.simps) simp

lemma map_result_fails:
  assumes "x \<in> set xs" and "isl (f x)"
  shows "\<exists>e y. y \<in> set xs \<and> f y = Inl e \<and> map_result f xs = Inl e"
  using assms
proof (induction xs)
  case Nil
  then show ?case by simp
next
  case (Cons a xs)
  show ?case
  proof (cases "f a")
    case (Inl e)
    then show ?thesis by auto
  next
    case (Inr b)
    with Cons.prems have "x \<in> set xs"
      by auto
    from Cons.IH[OF this Cons.prems(2)] obtain e y where
      "y \<in> set xs" "f y = Inl e" "map_result f xs = Inl e"
      by blast
    with Inr show ?thesis by auto
  qed
qed

lemma body_fails:
  assumes "d \<in> set (dates s)" and "isl (replace_year d (year d + 1))"
  shows "\<exists>e d'. d' \<in> set (dates s) \<and> replace_year d' (year d' + 1) = Inl e \<and> body conv s = Inl e"
proof -
  from map_result_fails[of d "dates s" "\<lambda>d. replace_year d (year d + 1)", OF assms]
  obtain e y where "y \<in> set (dates s)" "replace_year y (year y + 1) = Inl e"
    "map_result (\<lambda>d. replace_year d (year d + 1)) (dates s) = Inl e"
    by blast
  then show ?thesis
    by (auto simp: body_def)
qed

lemma initial_state_after: "initial = Inr (state_after conv 0)"
  by (simp add: initial_eq state_after_def add_years_def seeds_def)

lemma initial_unique:
  assumes "initial = Inr s0"
  shows "s0 = state_after conv 0"
proof -
  have "Inr s0 = (Inr (state_after conv 0) :: error + 'a state)"
    using assms[symmetric] initial_state_after[of conv] by (rule trans)
  then show ?thesis by simp
qed

lemma initial_lengths:
  assumes "initial = Inr s0"
  shows "length (dates s0) = 4 \<and> timestamps s0 = []"
  unfolding initial_unique[OF assms, of undefined]
  by (simp add: state_after_def length_seeds)

lemma script_eq: "script conv = Some (Inr (map conv generated_dates))"
  using while_loop_state_after[of 20 conv]
  by (simp add: script_def initial_state_after[of conv] state_after_def generated_dates_def)

lemma body_appends:
  assumes "body conv s = Inr s'"
  shows "\<exists>new. timestamps s' = timestamps s @ new \<and> length new = length (dates s) \<and>
           length (dates s') = length (dates s)"
  using assms by (auto simp: body_def split: sum.splits dest: map_result_length)

lemma iterate_lengths:
  assumes "iterate conv k s0 = Inr s"
  shows "length (dates s) = length (dates s0) \<and>
         length (timestamps s) = length (timestamps s0) + k * length (dates s0)"
  using assms
proof (induction k arbitrary: s)
  case 0
  then show ?case by simp
next
  case (Suc k)
  then obtain s1 where s1: "iterate conv k s0 = Inr s1" and b: "body conv s1 = Inr s"
    by (auto split: sum.splits)
  from Suc.IH[OF s1] body_appends[OF b] show ?case
    by auto
qed

section \<open>The generated dates\<close>

text \<open>
  What the list of the 80 expected dates holds at each index and in each block of 4, and
  how neighbouring entries compare.
\<close>

lemma length_generated_dates: "length generated_dates = 80"
  by (simp add: generated_dates_def)

lemma generated_dates_nth: "j < 80 \<Longrightarrow> generated_dates ! j = generated_date j"
  by (simp add: generated_dates_def del: upt_Suc)

lemma generated_dates_block:
  assumes "k < 20"
  shows "take 4 (drop (4 * k) generated_dates) = map (add_years (int k + 1)) seeds"
proof -
  have "drop (4 * k) [0..<80] = [4 * k..<80]"
    by (simp only: drop_upt add_0)
  moreover have "take 4 [4 * k..<80] = [4 * k..<4 * k + 4]"
    using assms by (intro take_upt) simp
  moreover have "[4 * k..<4 * k + 4] = [4 * k, 4 * k + 1, 4 * k + 2, 4 * k + 3]"
    by (simp add: upt_rec)
  ultimately have "take 4 (drop (4 * k) [0..<80]) = [4 * k, 4 * k + 1, 4 * k + 2, 4 * k + 3]"
    by (simp only:)
  then show ?thesis
    by (simp only: generated_dates_def take_map drop_map generated_date_block)
qed

lemma generated_date_not_seed: "generated_date j \<notin> set seeds"
proof -
  have "j mod 4 = 0 \<or> j mod 4 = 1 \<or> j mod 4 = 2 \<or> j mod 4 = 3"
    by arith
  then show ?thesis
    by (auto simp: generated_date_def add_years_def seeds_def)
qed

lemma generated_dates_not_seeds: "set seeds \<inter> set generated_dates = {}"
  by (auto simp: generated_dates_def generated_date_not_seed simp del: upt_Suc)

lemma generated_dates_first:
  "take 4 generated_dates =
     [\<lparr>year = 2024, month = 11, day = 25\<rparr>, \<lparr>year = 2025, month = 2, day = 25\<rparr>,
      \<lparr>year = 2025, month = 5, day = 24\<rparr>, \<lparr>year = 2025, month = 8, day = 29\<rparr>]"
  using generated_dates_block[of 0] by (simp add: seeds_def add_years_def)

lemma generated_dates_last:
  "generated_dates ! 79 = \<lparr>year = 2044, month = 8, day = 29\<rparr>"
  by (simp add: generated_dates_nth generated_date_def seeds_def add_years_def)

lemma generated_date_valid:
  assumes "j < 80"
  shows "valid_date (generated_date j)"
proof -
  have "seeds ! (j mod 4) \<in> set seeds"
    by (intro nth_mem) (simp add: length_seeds)
  moreover have "int (j div 4) + 1 \<le> 7975"
    using assms by simp
  ultimately show ?thesis
    unfolding generated_date_def by (intro seeds_valid) simp_all
qed

lemma date_less_generated:
  assumes "i < 4" and "i' < 4" and "j = 4 * k + i" and "j' = 4 * k' + i'"
    and "date_less (add_years (int k + 1) (seeds ! i)) (add_years (int k' + 1) (seeds ! i'))"
  shows "date_less (generated_date j) (generated_date j')"
  using assms by (simp only: generated_date_at)

lemma generated_date_less_next_year:
  assumes "i < 4"
  shows "date_less (generated_date (4 * k + i)) (generated_date (4 * (k + 1) + i))"
proof -
  have "date_less (add_years (int k + 1) (seeds ! i)) (add_years (int (k + 1) + 1) (seeds ! i))"
    by (simp add: date_less_def add_years_def)
  with assms assms refl refl show ?thesis
    by (rule date_less_generated)
qed

lemma generated_date_less_succ: "date_less (generated_date j) (generated_date (j + 1))"
proof -
  have "j mod 4 = 0 \<or> j mod 4 = 1 \<or> j mod 4 = 2 \<or> j mod 4 = 3"
    by arith
  then show ?thesis
  proof (elim disjE)
    assume "j mod 4 = 0"
    then have "j = 4 * (j div 4) + 0" and "j + 1 = 4 * (j div 4) + 1"
      by presburger+
    then show ?thesis
      by (rule date_less_generated[rotated 2]) (simp_all add: date_less_def add_years_def seeds_def)
  next
    assume "j mod 4 = 1"
    then have "j = 4 * (j div 4) + 1" and "j + 1 = 4 * (j div 4) + 2"
      by presburger+
    then show ?thesis
      by (rule date_less_generated[rotated 2]) (simp_all add: date_less_def add_years_def seeds_def)
  next
    assume "j mod 4 = 2"
    then have "j = 4 * (j div 4) + 2" and "j + 1 = 4 * (j div 4) + 3"
      by presburger+
    then show ?thesis
      by (rule date_less_generated[rotated 2]) (simp_all add: date_less_def add_years_def seeds_def)
  next
    assume "j mod 4 = 3"
    then have "j = 4 * (j div 4) + 3" and "j + 1 = 4 * (j div 4 + 1) + 0"
      by presburger+
    then show ?thesis
      by (rule date_less_generated[rotated 2]) (simp_all add: date_less_def add_years_def seeds_def)
  qed
qed

lemma script_nth:
  assumes "j < 80"
  shows "map conv generated_dates ! j = conv (generated_date j)"
  using assms by (simp add: length_generated_dates generated_dates_nth)

section \<open>The properties\<close>

text \<open>
  Claim C1. With the four seed dates the script prints exactly 80 values, in 20 blocks of
  4: for every \<open>k < 20\<close>, the values at indices \<open>4 * k\<close> to \<open>4 * k + 3\<close> are the
  conversions of the four dates of the working set after iteration \<open>k + 1\<close>, in the order
  of the working set. This holds for every conversion function.
\<close>

theorem C1_eighty_values_in_twenty_blocks:
  assumes "k < 20"
  shows "\<exists>s0 s xs. initial = Inr s0 \<and> script conv = Some (Inr xs) \<and> length xs = 80 \<and>
           iterate conv (Suc k) s0 = Inr s \<and> length (dates s) = 4 \<and>
           take 4 (drop (4 * k) xs) = map conv (dates s)"
proof -
  have "iterate conv (Suc k) (state_after conv 0) = Inr (state_after conv (Suc k))"
    using assms by (intro iterate_state_after) simp
  moreover have "take 4 (drop (4 * k) (map conv generated_dates)) =
      map conv (dates (state_after conv (Suc k)))"
    using generated_dates_block[OF assms]
    by (simp add: take_map drop_map dates_state_after add.commute del: upt_Suc)
  moreover have "length (dates (state_after conv (Suc k))) = 4"
    by (simp add: dates_state_after length_seeds)
  moreover have "length (map conv generated_dates) = 80"
    by (simp add: length_generated_dates)
  ultimately show ?thesis
    using initial_state_after[of conv] script_eq[of conv] by blast
qed

text \<open>
  The first block, under UTC.
\<close>

theorem C1_witness:
  "(0::nat) < 20 \<and>
   (\<exists>s0 s xs. initial = Inr s0 \<and> script (timestamp utc) = Some (Inr xs) \<and> length xs = 80 \<and>
      iterate (timestamp utc) (Suc 0) s0 = Inr s \<and> length (dates s) = 4 \<and>
      take 4 (drop (4 * 0) xs) = map (timestamp utc) (dates s))"
  using C1_eighty_values_in_twenty_blocks[of 0 "timestamp utc"] by simp

text \<open>
  Claim C2. The loop returns, and it returns the state reached by 20 runs of its body,
  whose accumulator holds at least 80 values; after any smaller number \<open>k\<close> of runs the
  accumulator holds fewer than 80 values, so that the guard lets the loop go on.
\<close>

theorem C2_loop_ends_after_twenty_iterations:
  assumes "initial = Inr s0" and "k < 20"
  shows "(\<exists>s. while_loop conv s0 = Some (Inr s) \<and> iterate conv 20 s0 = Inr s \<and>
              80 \<le> length (timestamps s)) \<and>
         (\<exists>s. iterate conv k s0 = Inr s \<and> length (timestamps s) < 80)"
proof -
  have s0: "s0 = state_after conv 0"
    using assms(1) by (rule initial_unique)
  have "while_loop conv s0 = Some (Inr (state_after conv 20))"
    using while_loop_state_after[of 20 conv] s0 by simp
  moreover have "iterate conv 20 s0 = Inr (state_after conv 20)"
    unfolding s0 by (intro iterate_state_after) simp
  moreover have "iterate conv k s0 = Inr (state_after conv k)"
    unfolding s0 using assms(2) by (intro iterate_state_after) simp
  ultimately show ?thesis
    using assms(2) by (simp add: length_state_after)
qed

text \<open>
  After 19 iterations the guard still holds, under UTC.
\<close>

theorem C2_witness:
  "initial = Inr (state_after (timestamp utc) 0) \<and> (19::nat) < 20 \<and>
   (\<exists>s. while_loop (timestamp utc) (state_after (timestamp utc) 0) = Some (Inr s) \<and>
        iterate (timestamp utc) 20 (state_after (timestamp utc) 0) = Inr s \<and>
        80 \<le> length (timestamps s)) \<and>
   (\<exists>s. iterate (timestamp utc) 19 (state_after (timestamp utc) 0) = Inr s \<and>
        length (timestamps s) < 80)"
proof -
  have i: "initial = Inr (state_after (timestamp utc) 0)"
    by (rule initial_state_after)
  have k: "(19::nat) < 20"
    by simp
  from C2_loop_ends_after_twenty_iterations[OF i k, of "timestamp utc"] i k show ?thesis
    by blast
qed

text \<open>
  Claim C3. Where the conversion is strictly monotone in the date, the output is strictly
  block-monotone: for every seed index \<open>i < 4\<close> and every block \<open>k \<le> 18\<close>, the value at
  index \<open>4 * k + i\<close> is smaller than the value at index \<open>4 * (k + 1) + i\<close>.
\<close>

theorem C3_block_monotone:
  assumes "conv_strictly_monotone conv" and "i < 4" and "k \<le> 18"
  shows "\<exists>xs. script conv = Some (Inr xs) \<and> length xs = 80 \<and>
           xs ! (4 * k + i) < xs ! (4 * (k + 1) + i)"
proof -
  have a: "4 * k + i < 80" and b: "4 * (k + 1) + i < 80"
    using assms(2,3) by simp_all
  have "conv (generated_date (4 * k + i)) < conv (generated_date (4 * (k + 1) + i))"
    using assms(1) generated_date_valid[OF a] generated_date_valid[OF b]
      generated_date_less_next_year[OF assms(2), of k]
    unfolding conv_strictly_monotone_def by blast
  then have "map conv generated_dates ! (4 * k + i) < map conv generated_dates ! (4 * (k + 1) + i)"
    by (simp only: script_nth[OF a] script_nth[OF b])
  moreover have "length (map conv generated_dates) = 80"
    by (simp add: length_generated_dates)
  ultimately show ?thesis
    using script_eq[of conv] by blast
qed

text \<open>
  UTC is strictly monotone; the last two blocks at the fourth seed.
\<close>

theorem C3_witness:
  "conv_strictly_monotone (timestamp utc) \<and> (3::nat) < 4 \<and> (18::nat) \<le> 18 \<and>
   (\<exists>xs. script (timestamp utc) = Some (Inr xs) \<and> length xs = 80 \<and>
      xs ! (4 * 18 + 3) < xs ! (4 * (18 + 1) + 3))"
proof -
  have m: "conv_strictly_monotone (timestamp utc)"
    unfolding utc_def by (rule fixed_offset_strictly_monotone)
  have i: "(3::nat) < 4" and k: "(18::nat) \<le> 18"
    by simp_all
  from C3_block_monotone[OF m i k] m i k show ?thesis
    by blast
qed

text \<open>
  Claim C4. The script starts from the four seed dates and an empty accumulator, and its
  output is the conversion of the 80 generated dates. The first four of them are
  2024-11-25, 2025-02-25, 2025-05-24 and 2025-08-29, the seeds one year later, and no seed
  date is among the 80: the conversion of a seed date is never part of the output. In a
  time zone of fixed offset the first four values are the seconds from the epoch to local
  midnight of these dates.
\<close>

theorem C4_first_four_values:
  "initial = (Inr \<lparr>dates = seeds, timestamps = []\<rparr> :: error + 'a state) \<and>
   script conv = Some (Inr (map (conv :: datetime \<Rightarrow> 'a) generated_dates)) \<and>
   length generated_dates = 80 \<and>
   take 4 generated_dates =
     [\<lparr>year = 2024, month = 11, day = 25\<rparr>, \<lparr>year = 2025, month = 2, day = 25\<rparr>,
      \<lparr>year = 2025, month = 5, day = 24\<rparr>, \<lparr>year = 2025, month = 8, day = 29\<rparr>] \<and>
   take 4 generated_dates = map (add_years 1) seeds \<and>
   set seeds \<inter> set generated_dates = {} \<and>
   map (timestamp (fixed_offset off)) (take 4 generated_dates) =
     [1732492800 - off, 1740441600 - off, 1748044800 - off, 1756425600 - off]"
proof -
  have "take 4 generated_dates = map (add_years 1) seeds"
    using generated_dates_block[of 0] by simp
  moreover have "map (timestamp (fixed_offset off)) (take 4 generated_dates) =
      [1732492800 - off, 1740441600 - off, 1748044800 - off, 1756425600 - off]"
    by (simp add: generated_dates_first timestamp_fixed_offset seconds_since_epoch_values)
  ultimately show ?thesis
    using script_eq[of conv] length_generated_dates generated_dates_first generated_dates_not_seeds
      initial_eq
    by blast
qed

text \<open>
  Claim C5. The value at index 79, the last of the 80, is the conversion of 2044-08-29,
  which is the fourth seed date 20 years later; in a time zone of fixed offset it is the
  count of seconds from the epoch to local midnight of that day.
\<close>

theorem C5_last_value:
  "\<exists>xs. script conv = Some (Inr xs) \<and> length xs = 80 \<and>
     xs ! 79 = conv \<lparr>year = 2044, month = 8, day = 29\<rparr> \<and>
     last xs = conv \<lparr>year = 2044, month = 8, day = 29\<rparr> \<and>
     \<lparr>year = 2044, month = 8, day = 29\<rparr> = add_years 20 (seeds ! 3) \<and>
     timestamp (fixed_offset off) \<lparr>year = 2044, month = 8, day = 29\<rparr> = 2356041600 - off"
proof -
  let ?xs = "map conv generated_dates"
  have n: "length ?xs = 80"
    by (simp add: length_generated_dates)
  have a: "?xs ! 79 = conv \<lparr>year = 2044, month = 8, day = 29\<rparr>"
    by (simp add: length_generated_dates generated_dates_last)
  have "?xs \<noteq> []"
    using n by auto
  then have "last ?xs = ?xs ! (length ?xs - 1)"
    by (rule last_conv_nth)
  with n a have b: "last ?xs = conv \<lparr>year = 2044, month = 8, day = 29\<rparr>"
    by simp
  have c: "\<lparr>year = 2044, month = 8, day = 29\<rparr> = add_years 20 (seeds ! 3)"
    by (simp add: seeds_def add_years_def)
  have d: "timestamp (fixed_offset off) \<lparr>year = 2044, month = 8, day = 29\<rparr> = 2356041600 - off"
    by (simp add: timestamp_fixed_offset seconds_since_epoch_values)
  from script_eq[of conv] n a b c d show ?thesis
    by blast
qed

text \<open>
  Claim C6 says that the year increment fails exactly when the date is February 29 and
  the next year is no leap year. It also fails on a date of the year 9999, whatever its
  month and day: the constructor refuses the year 10000.
\<close>

theorem C6_counterexample:
  "valid_date \<lparr>year = 9999, month = 1, day = 1\<rparr> \<and>
   replace_year \<lparr>year = 9999, month = 1, day = 1\<rparr> (year \<lparr>year = 9999, month = 1, day = 1\<rparr> + 1)
     = Inl (ValueError_year 10000) \<and>
   \<not> (month \<lparr>year = 9999, month = 1, day = 1\<rparr> = 2 \<and> day \<lparr>year = 9999, month = 1, day = 1\<rparr> = 29)"
  by (simp add: valid_date_def replace_year_def new_datetime_def check_date_fields_def
      MINYEAR_def MAXYEAR_def days_in_month_def DAYS_IN_MONTH_def)

text \<open>
  Claim C6, amended. On a date that exists, \<^verbatim>\<open>replace(year=d.year + 1)\<close> fails exactly
  when the date is February 29 and the next year is no leap year, or the next year is
  beyond \<open>MAXYEAR\<close>. From the four seed dates all 20 iterations succeed and the script
  returns its list. In any state of the loop whose guard holds, if the year increment
  fails on a date \<open>d\<close> of the working set, then the body fails with the error of a date
  of the working set, and the loop ends with that same error: no accumulator is returned.
\<close>

theorem C6_year_increment_errors:
  assumes "valid_date d" and "d \<in> set (dates s)" and "length (timestamps s) < 80"
  shows "(isl (replace_year d (year d + 1)) \<longleftrightarrow>
            (month d = 2 \<and> day d = 29 \<and> \<not> is_leap (year d + 1)) \<or> MAXYEAR < year d + 1) \<and>
         (\<exists>s0 s20 xs. initial = Inr s0 \<and> iterate conv 20 s0 = Inr s20 \<and>
            script conv = Some (Inr xs)) \<and>
         (isl (replace_year d (year d + 1)) \<longrightarrow>
            (\<exists>e d'. d' \<in> set (dates s) \<and> replace_year d' (year d' + 1) = Inl e \<and>
               body conv s = Inl e \<and> while_loop conv s = Some (Inl e)))"
proof -
  have "isl (replace_year d (year d + 1)) \<longleftrightarrow>
      (month d = 2 \<and> day d = 29 \<and> \<not> is_leap (year d + 1)) \<or> MAXYEAR < year d + 1"
    using leap_day_is_in_leap_year[OF assms(1)]
    by (auto simp: replace_year_succ[OF assms(1)])
  moreover have "iterate conv 20 (state_after conv 0) = Inr (state_after conv 20)"
    by (rule iterate_state_after) simp
  moreover have "\<exists>e d'. d' \<in> set (dates s) \<and> replace_year d' (year d' + 1) = Inl e \<and>
      body conv s = Inl e \<and> while_loop conv s = Some (Inl e)"
    if "isl (replace_year d (year d + 1))"
  proof -
    from body_fails[OF assms(2) that, of conv] obtain e d' where
      e: "d' \<in> set (dates s)" "replace_year d' (year d' + 1) = Inl e" "body conv s = Inl e"
      by blast
    from while_loop_error[OF assms(3) e(3)] e show ?thesis
      by blast
  qed
  moreover note initial_state_after[of conv] script_eq[of conv]
  ultimately show ?thesis
    by blast
qed

text \<open>
  February 29 of 2024 exists and has no successor in 2025. A loop that reaches a working
  set with this date in second place, with three values accumulated, ends with the error
  of that date.
\<close>

theorem C6_witness:
  "valid_date \<lparr>year = 2024, month = 2, day = 29\<rparr> \<and>
   \<lparr>year = 2024, month = 2, day = 29\<rparr> \<in> set (dates
      \<lparr>dates = [\<lparr>year = 2023, month = 11, day = 25\<rparr>, \<lparr>year = 2024, month = 2, day = 29\<rparr>,
                \<lparr>year = 2024, month = 5, day = 24\<rparr>],
       timestamps = [7, 8, 9]\<rparr>) \<and>
   length (timestamps
      \<lparr>dates = [\<lparr>year = 2023, month = 11, day = 25\<rparr>, \<lparr>year = 2024, month = 2, day = 29\<rparr>,
                \<lparr>year = 2024, month = 5, day = 24\<rparr>],
       timestamps = [7, 8, 9 :: int]\<rparr>) < 80 \<and>
   isl (replace_year \<lparr>year = 2024, month = 2, day = 29\<rparr> (year \<lparr>year = 2024, month = 2, day = 29\<rparr> + 1)) \<and>
   while_loop (timestamp utc)
      \<lparr>dates = [\<lparr>year = 2023, month = 11, day = 25\<rparr>, \<lparr>year = 2024, month = 2, day = 29\<rparr>,
                \<lparr>year = 2024, month = 5, day = 24\<rparr>],
       timestamps = [7, 8, 9]\<rparr>
     = Some (Inl (ValueError_day 29)) \<and>
   (\<exists>xs. script (timestamp utc) = Some (Inr xs))"
proof -
  let ?d = "\<lparr>year = 2024, month = 2, day = 29\<rparr>"
  let ?s = "\<lparr>dates = [\<lparr>year = 2023, month = 11, day = 25\<rparr>, ?d, \<lparr>year = 2024, month = 5, day = 24\<rparr>],
             timestamps = [7, 8, 9 :: int]\<rparr>"
  have v: "valid_date ?d"
    by (simp add: valid_date_def MINYEAR_def MAXYEAR_def days_in_month_def is_leap_def)
  have m: "?d \<in> set (dates ?s)"
    by simp
  have g: "length (timestamps ?s) < 80"
    by simp
  have i: "isl (replace_year ?d (year ?d + 1))"
    by (simp add: replace_year_def new_datetime_def check_date_fields_def
        MINYEAR_def MAXYEAR_def days_in_month_def DAYS_IN_MONTH_def is_leap_def)
  have b: "body (timestamp utc) ?s = Inl (ValueError_day 29)"
    by (simp add: body_def replace_year_def new_datetime_def check_date_fields_def
        MINYEAR_def MAXYEAR_def days_in_month_def DAYS_IN_MONTH_def is_leap_def)
  from C6_year_increment_errors[OF v m g, of "timestamp utc"] i
  obtain e where "body (timestamp utc) ?s = Inl e" "while_loop (timestamp utc) ?s = Some (Inl e)"
    and "\<exists>xs. script (timestamp utc) = Some (Inr xs)"
    by blast
  with b v m g i show ?thesis
    by simp
qed

text \<open>
  Claim C7. After \<open>k\<close> iterations from the initial state the accumulator holds \<open>4 * k\<close>
  values. One more iteration leads to the state after \<open>k + 1\<close> iterations with
  \<open>4 * (k + 1)\<close> values, and it only appends: the new accumulator is the old one followed
  by 4 new values, so the old entries keep their values and their places.
\<close>

theorem C7_length_invariant_and_append_only:
  assumes "initial = Inr s0" and "iterate conv k s0 = Inr s" and "body conv s = Inr s'"
  shows "length (timestamps s) = 4 * k \<and> length (timestamps s') = 4 * (k + 1) \<and>
         iterate conv (k + 1) s0 = Inr s' \<and>
         (\<exists>new. timestamps s' = timestamps s @ new \<and> length new = 4) \<and>
         take (length (timestamps s)) (timestamps s') = timestamps s"
proof -
  from initial_lengths[OF assms(1)] iterate_lengths[OF assms(2)]
  have l: "length (dates s) = 4" "length (timestamps s) = 4 * k"
    by simp_all
  from body_appends[OF assms(3)] l obtain new where
    new: "timestamps s' = timestamps s @ new" "length new = 4"
    by auto
  have "iterate conv (k + 1) s0 = Inr s'"
    using assms(2,3) by simp
  with l new show ?thesis by simp
qed

text \<open>
  The second iteration, under UTC.
\<close>

theorem C7_witness:
  "initial = Inr (state_after (timestamp utc) 0) \<and>
   iterate (timestamp utc) 1 (state_after (timestamp utc) 0) = Inr (state_after (timestamp utc) 1) \<and>
   body (timestamp utc) (state_after (timestamp utc) 1) = Inr (state_after (timestamp utc) 2) \<and>
   length (timestamps (state_after (timestamp utc) 1)) = 4 * 1 \<and>
   length (timestamps (state_after (timestamp utc) 2)) = 4 * (1 + 1) \<and>
   take (length (timestamps (state_after (timestamp utc) 1))) (timestamps (state_after (timestamp utc) 2))
     = timestamps (state_after (timestamp utc) 1)"
proof -
  have i: "initial = Inr (state_after (timestamp utc) 0)"
    by (rule initial_state_after)
  have k: "iterate (timestamp utc) 1 (state_after (timestamp utc) 0) = Inr (state_after (timestamp utc) 1)"
    by (rule iterate_state_after) simp
  have b: "body (timestamp utc) (state_after (timestamp utc) 1) = Inr (state_after (timestamp utc) 2)"
    using body_state_after[of 1 "timestamp utc"] by (simp add: numeral_2_eq_2)
  from C7_length_invariant_and_append_only[OF i k b] i k b show ?thesis
    by blast
qed

text \<open>
  Claim C9. The output depends on the time zone: under two time zones of different fixed
  offsets, the outputs differ at every index \<open>j < 80\<close>, by the difference of the offsets.
\<close>

theorem C9_output_depends_on_time_zone:
  assumes "off1 \<noteq> off2" and "j < 80"
  shows "\<exists>xs ys. script (timestamp (fixed_offset off1)) = Some (Inr xs) \<and>
           script (timestamp (fixed_offset off2)) = Some (Inr ys) \<and>
           length xs = 80 \<and> length ys = 80 \<and> xs ! j \<noteq> ys ! j \<and> ys ! j - xs ! j = off1 - off2"
proof -
  let ?xs = "map (timestamp (fixed_offset off1)) generated_dates"
  let ?ys = "map (timestamp (fixed_offset off2)) generated_dates"
  have "?xs ! j = seconds_since_epoch (generated_date j) - off1"
    and "?ys ! j = seconds_since_epoch (generated_date j) - off2"
    by (simp_all only: script_nth[OF assms(2)] timestamp_fixed_offset)
  then have "?xs ! j \<noteq> ?ys ! j \<and> ?ys ! j - ?xs ! j = off1 - off2"
    using assms(1) by simp
  moreover have "length ?xs = 80" "length ?ys = 80"
    by (simp_all add: length_generated_dates)
  ultimately show ?thesis
    using script_eq[of "timestamp (fixed_offset off1)"] script_eq[of "timestamp (fixed_offset off2)"]
    by blast
qed

text \<open>
  UTC and the zone one hour ahead of it give different first values.
\<close>

theorem C9_witness:
  "(0::int) \<noteq> 3600 \<and> (0::nat) < 80 \<and>
   (\<exists>xs ys. script (timestamp (fixed_offset 0)) = Some (Inr xs) \<and>
      script (timestamp (fixed_offset 3600)) = Some (Inr ys) \<and>
      length xs = 80 \<and> length ys = 80 \<and> xs ! 0 \<noteq> ys ! 0 \<and> ys ! 0 - xs ! 0 = 0 - 3600)"
proof -
  have o: "(0::int) \<noteq> 3600" and j: "(0::nat) < 80"
    by simp_all
  from C9_output_depends_on_time_zone[OF o j] o j show ?thesis
    by blast
qed

text \<open>
  Claim C10. Where the conversion is strictly monotone in the date, the whole output is
  strictly increasing: for every \<open>j < 79\<close>, the value at index \<open>j\<close> is smaller than the
  value at index \<open>j + 1\<close>.
\<close>

theorem C10_strictly_increasing:
  assumes "conv_strictly_monotone conv" and "j < 79"
  shows "\<exists>xs. script conv = Some (Inr xs) \<and> length xs = 80 \<and> xs ! j < xs ! (j + 1)"
proof -
  have a: "j < 80" and b: "j + 1 < 80"
    using assms(2) by simp_all
  have "conv (generated_date j) < conv (generated_date (j + 1))"
    using assms(1) generated_date_valid[OF a] generated_date_valid[OF b]
      generated_date_less_succ[of j]
    unfolding conv_strictly_monotone_def by blast
  then have "map conv generated_dates ! j < map conv generated_dates ! (j + 1)"
    by (simp only: script_nth[OF a] script_nth[OF b])
  moreover have "length (map conv generated_dates) = 80"
    by (simp add: length_generated_dates)
  ultimately show ?thesis
    using script_eq[of conv] by blast
qed

text \<open>
  The zone one hour ahead of UTC is strictly monotone; the end of the first block and the
  start of the second.
\<close>

theorem C10_witness:
  "conv_strictly_monotone (timestamp (fixed_offset 3600)) \<and> (3::nat) < 79 \<and>
   (\<exists>xs. script (timestamp (fixed_offset 3600)) = Some (Inr xs) \<and> length xs = 80 \<and>
      xs ! 3 < xs ! (3 + 1))"
proof -
  have m: "conv_strictly_monotone (timestamp (fixed_offset 3600))"
    by (rule fixed_offset_strictly_monotone)
  have j: "(3::nat) < 79"
    by simp
  from C10_strictly_increasing[OF m j] m j show ?thesis
    by blast
qed

end
